theory Spec2Isabelle
  imports Main "HOL-Library.AList" "HOL-Library.Char_ord" "HOL-Library.List_Lexorder"
begin

section \<open>Values, documents and errors\<close>

text \<open>
  The handlers of \<^verbatim>\<open>backend/pets/routes.py\<close> work on Python dictionaries read from and
  written to one MongoDB collection, \<^verbatim>\<open>DB.pet\<close>. An ObjectId is kept as its 24 lowercase
  hexadecimal digits, the text \<^verbatim>\<open>str\<close> gives back. A dictionary is an association list
  in insertion order; \<^verbatim>\<open>d[k] = v\<close> is \<open>AList.update k v d\<close>, which overwrites in place
  when the key is there and appends otherwise, and \<^verbatim>\<open>d.get(k)\<close> is \<open>map_of d k\<close>.
\<close>

datatype objectid = ObjectId (oid_hex: string)

datatype pyval = VBool bool | VInt int | VStr string | VOid objectid

type_synonym doc = "(string \<times> pyval) list"

type_synonym collection = "doc list"

text \<open>
  Every \<^verbatim>\<open>raise\<close> of the source and of the driver is a value: \<open>HTTPException\<close> carries
  the status code and the detail, the others are the Python and driver exceptions that
  the framework turns into an internal error.
\<close>

datatype error =
    HTTPException nat "string option"
  | ValueError
  | KeyError
  | InvalidId
  | TypeError
  | DuplicateKeyError
  | WriteError
  | ResponseValidationError

fun truthy :: "pyval \<Rightarrow> bool" where
  "truthy (VBool b) = b"
| "truthy (VInt i) = (i \<noteq> 0)"
| "truthy (VStr s) = (s \<noteq> [])"
| "truthy (VOid _) = True"

fun str_nat :: "nat \<Rightarrow> string" where
  "str_nat n =
     (if n < 10 then [''0123456789'' ! n]
      else str_nat (n div 10) @ [''0123456789'' ! (n mod 10)])"

declare str_nat.simps [simp del]

definition str_int :: "int \<Rightarrow> string" where
  "str_int i = (if i < 0 then CHR ''-'' # str_nat (nat (- i)) else str_nat (nat i))"

fun py_str :: "pyval \<Rightarrow> string" where
  "py_str (VBool b) = (if b then ''True'' else ''False'')"
| "py_str (VInt i) = str_int i"
| "py_str (VStr s) = s"
| "py_str (VOid oid) = oid_hex oid"

subsection \<open>The identifier codec\<close>

definition is_hex_digit :: "char \<Rightarrow> bool" where
  "is_hex_digit c = (c \<in> set ''0123456789abcdefABCDEF'')"

definition hex_lower :: "char \<Rightarrow> char" where
  "hex_lower c =
     (if c = CHR ''A'' then CHR ''a'' else if c = CHR ''B'' then CHR ''b''
      else if c = CHR ''C'' then CHR ''c'' else if c = CHR ''D'' then CHR ''d''
      else if c = CHR ''E'' then CHR ''e'' else if c = CHR ''F'' then CHR ''f''
      else c)"

text \<open>
  \<^verbatim>\<open>ObjectId(x)\<close> of the bson package: an ObjectId is copied, a string must be 24
  hexadecimal digits (\<^verbatim>\<open>InvalidId\<close> otherwise), any other object is a \<^verbatim>\<open>TypeError\<close>.
  Strings of length 24 that hold blanks between pairs of digits, which \<^verbatim>\<open>bytes.fromhex\<close>
  would skip, count as invalid here.
\<close>

fun ObjectId_init :: "pyval \<Rightarrow> error + objectid" where
  "ObjectId_init (VOid oid) = Inr oid"
| "ObjectId_init (VStr s) =
     (if length s = 24 \<and> list_all is_hex_digit s then Inr (ObjectId (map hex_lower s))
      else Inl InvalidId)"
| "ObjectId_init _ = Inl TypeError"

text \<open>
  \<^verbatim>\<open>validate_object_id\<close>: any exception of the constructor becomes status 400. The
  warning it logs in debug mode changes neither the result nor the collection.
\<close>

definition validate_object_id :: "pyval \<Rightarrow> error + objectid" where
  "validate_object_id rid =
     (case ObjectId_init rid of
        Inl _ \<Rightarrow> Inl (HTTPException 400 None)
      | Inr oid \<Rightarrow> Inr oid)"

definition fix_pet_id :: "doc \<Rightarrow> error + doc" where
  "fix_pet_id pet =
     (case map_of pet ''_id'' of
        Some v \<Rightarrow>
          if truthy v then Inr (AList.update ''id_'' (VStr (py_str v)) pet)
          else Inl ValueError
      | None \<Rightarrow> Inl ValueError)"

section \<open>The document store\<close>

text \<open>
  The collection is the list of its documents in insertion order. An equality
  filter matches a document that holds each of the filter's values under its key.
\<close>

definition matches :: "doc \<Rightarrow> doc \<Rightarrow> bool" where
  "matches flt d = list_all (\<lambda>(k, v). map_of d k = Some v) flt"

definition find_one :: "doc \<Rightarrow> collection \<Rightarrow> doc option" where
  "find_one flt c = List.find (matches flt) c"

definition count_documents :: "doc \<Rightarrow> collection \<Rightarrow> nat" where
  "count_documents flt c = length (filter (matches flt) c)"

text \<open>
  \<^verbatim>\<open>insert_one\<close>: the driver gives a document without \<^verbatim>\<open>_id\<close> the identifier it
  generates (\<open>gen\<close>, an input of the model), and the server refuses an identifier that
  is already in the collection. The result reports the identifier of the document;
  whether it does is an input too (\<open>reports_id\<close>, true of the driver as it is), and
  a result that reports none has \<^verbatim>\<open>inserted_id\<close> \<^verbatim>\<open>None\<close>.
\<close>

definition insert_one ::
  "bool \<Rightarrow> objectid \<Rightarrow> doc \<Rightarrow> collection \<Rightarrow> error + (pyval option \<times> collection)" where
  "insert_one reports_id gen d c =
     (let i = (case map_of d ''_id'' of None \<Rightarrow> VOid gen | Some v \<Rightarrow> v);
          d' = (case map_of d ''_id'' of None \<Rightarrow> (''_id'', VOid gen) # d | Some _ \<Rightarrow> d)
      in if list_ex (\<lambda>e. map_of e ''_id'' = Some i) c then Inl DuplicateKeyError
         else Inr (if reports_id then Some i else None, c @ [d']))"

text \<open>The \<^verbatim>\<open>$set\<close> operator: the listed fields are assigned, the others stay.\<close>

definition set_fields :: "doc \<Rightarrow> doc \<Rightarrow> doc" where
  "set_fields upd d = fold (\<lambda>(k, v). AList.update k v) upd d"

text \<open>
  \<^verbatim>\<open>update_one\<close> changes the first document that matches and returns
  \<^verbatim>\<open>modified_count\<close>: 1 when the document changed, 0 when none matched or the
  assignment left it as it was. The server refuses a change of \<^verbatim>\<open>_id\<close>.
\<close>

fun update_one :: "doc \<Rightarrow> doc \<Rightarrow> collection \<Rightarrow> error + (nat \<times> collection)" where
  "update_one flt upd [] = Inr (0, [])"
| "update_one flt upd (d # c) =
     (if matches flt d then
        (let d' = set_fields upd d in
         if map_of d' ''_id'' \<noteq> map_of d ''_id'' then Inl WriteError
         else Inr (if d' = d then 0 else 1, d' # c))
      else
        (case update_one flt upd c of
           Inl e \<Rightarrow> Inl e
         | Inr (n, c') \<Rightarrow> Inr (n, d # c')))"

text \<open>\<^verbatim>\<open>delete_one\<close> removes the first document that matches and returns \<^verbatim>\<open>deleted_count\<close>.\<close>

fun delete_one :: "doc \<Rightarrow> collection \<Rightarrow> nat \<times> collection" where
  "delete_one flt [] = (0, [])"
| "delete_one flt (d # c) =
     (if matches flt d then (1, c)
      else (case delete_one flt c of (n, c') \<Rightarrow> (n, d # c')))"

text \<open>
  The cursor of \<^verbatim>\<open>find(flt).skip(s).limit(l).sort("created_at", -1)\<close>: the server sorts
  first, whatever the order of the calls, then skips, then limits. Values are compared
  in the order of BSON: a missing field first, then numbers, strings, ObjectIds,
  booleans; the sort is an insertion sort that keeps documents with equal keys in
  collection order.
\<close>

fun bson_rank :: "pyval option \<Rightarrow> nat" where
  "bson_rank None = 0"
| "bson_rank (Some (VInt _)) = 1"
| "bson_rank (Some (VStr _)) = 2"
| "bson_rank (Some (VOid _)) = 3"
| "bson_rank (Some (VBool _)) = 4"

fun bson_less :: "pyval option \<Rightarrow> pyval option \<Rightarrow> bool" where
  "bson_less (Some (VInt i)) (Some (VInt j)) = (i < j)"
| "bson_less (Some (VStr s)) (Some (VStr t)) = (s < t)"
| "bson_less (Some (VOid a)) (Some (VOid b)) = (oid_hex a < oid_hex b)"
| "bson_less (Some (VBool a)) (Some (VBool b)) = (\<not> a \<and> b)"
| "bson_less x y = (bson_rank x < bson_rank y)"

fun insert_desc :: "string \<Rightarrow> doc \<Rightarrow> doc list \<Rightarrow> doc list" where
  "insert_desc key d [] = [d]"
| "insert_desc key d (e # es) =
     (if bson_less (map_of d key) (map_of e key) then e # insert_desc key d es
      else d # e # es)"

definition sort_desc :: "string \<Rightarrow> doc list \<Rightarrow> doc list" where
  "sort_desc key ds = foldr (insert_desc key) ds []"

definition find_cursor :: "doc \<Rightarrow> nat \<Rightarrow> nat \<Rightarrow> collection \<Rightarrow> doc list" where
  "find_cursor flt skip limit c =
     take limit (drop skip (sort_desc ''created_at'' (filter (matches flt) c)))"

section \<open>The handlers\<close>

text \<open>
  Each handler takes the collection and, when it writes, returns the collection it
  leaves behind next to its result. The reading of the clock
  (\<^verbatim>\<open>datetime.utcnow().isoformat()\<close>, \<open>date_now\<close>) and the identifier the driver
  generates (\<open>gen\<close>) are inputs. The parameter \<open>rid\<close> is the source's \<^verbatim>\<open>id_\<close>.
  A handler that ends without \<^verbatim>\<open>return\<close> gives Python's \<^verbatim>\<open>None\<close>: the result \<open>Inr None\<close>.
\<close>

definition get_pet_or_404 :: "pyval \<Rightarrow> collection \<Rightarrow> error + doc" where
  "get_pet_or_404 rid c =
     (case validate_object_id rid of
        Inl e \<Rightarrow> Inl e
      | Inr oid \<Rightarrow>
          (case find_one [(''_id'', VOid oid)] c of
             Some pet \<Rightarrow>
               if pet \<noteq> [] then fix_pet_id pet
               else Inl (HTTPException 404 (Some ''Pet not found''))
           | None \<Rightarrow> Inl (HTTPException 404 (Some ''Pet not found''))))"

text \<open>
  Modelled from the spec: \<^verbatim>\<open>PetKind\<close> and \<^verbatim>\<open>PetStatus\<close> are declared in
  \<^verbatim>\<open>models.py\<close>, which is not among the sources; the spec calls them enumerated
  categories. A member is kept as its \<^verbatim>\<open>.value\<close>, and a member, when supplied, is truthy.
\<close>

datatype PetKind = PetKind (kind_value: string)

datatype PetStatus = PetStatus (status_value: string)

definition filter_db :: "PetKind option \<Rightarrow> PetStatus option \<Rightarrow> doc" where
  "filter_db kind status =
     (if status \<noteq> None \<and> kind \<noteq> None then
        [(''status'', VStr (status_value (the status))), (''kind'', VStr (kind_value (the kind)))]
      else if status \<noteq> None then [(''status'', VStr (status_value (the status)))]
      else if kind \<noteq> None then [(''kind'', VStr (kind_value (the kind)))]
      else [])"

fun map_fix :: "doc list \<Rightarrow> error + doc list" where
  "map_fix [] = Inr []"
| "map_fix (p # ps) =
     (case fix_pet_id p of
        Inl e \<Rightarrow> Inl e
      | Inr p' \<Rightarrow> (case map_fix ps of Inl e \<Rightarrow> Inl e | Inr ps' \<Rightarrow> Inr (p' # ps')))"

record pets_out =
  pets :: "doc list"
  count :: nat

definition get_all_pets ::
  "PetKind option \<Rightarrow> PetStatus option \<Rightarrow> int \<Rightarrow> int \<Rightarrow> collection \<Rightarrow> error + pets_out" where
  "get_all_pets kind status limit skip c =
     (let skip = (if skip < 0 then 0 else skip);
          limit = (if limit \<le> 0 then 10 else limit);
          flt = filter_db kind status;
          pets_cursor = find_cursor flt (nat skip) (nat limit) c;
          pets_count = count_documents flt c;
          pets = take (nat limit) pets_cursor
      in case map_fix pets of
           Inl e \<Rightarrow> Inl e
         | Inr pets_list \<Rightarrow> Inr \<lparr>pets = pets_list, count = pets_count\<rparr>)"

text \<open>\<^verbatim>\<open>pet[k]\<close> of a dictionary raises \<^verbatim>\<open>KeyError\<close> when the key is missing.\<close>

definition assign_id :: "doc \<Rightarrow> error + doc" where
  "assign_id pet =
     (case map_of pet ''_id'' of
        None \<Rightarrow> Inl KeyError
      | Some v \<Rightarrow> Inr (AList.update ''id_'' (VStr (py_str v)) pet))"

definition add_pet ::
  "bool \<Rightarrow> objectid \<Rightarrow> string \<Rightarrow> doc \<Rightarrow> collection \<Rightarrow> (error + doc option) \<times> collection" where
  "add_pet reports_id gen date_now pet c =
     (let pet_data =
            AList.update ''created_at'' (VStr date_now)
              (AList.update ''last_modified'' (VStr date_now) pet)
      in case insert_one reports_id gen pet_data c of
           Inl e \<Rightarrow> (Inl e, c)
         | Inr (inserted_id, c') \<Rightarrow>
             (case inserted_id of
                None \<Rightarrow> (Inr None, c')
              | Some v \<Rightarrow>
                  if truthy v then
                    (case get_pet_or_404 v c' of
                       Inl e \<Rightarrow> (Inl e, c')
                     | Inr p \<Rightarrow>
                         (case assign_id p of
                            Inl e \<Rightarrow> (Inl e, c')
                          | Inr p' \<Rightarrow> (Inr (Some p'), c')))
                  else (Inr None, c')))"



text \<open>
  \<^verbatim>\<open>GET /{id_}\<close>: the parameter is resolved by \<^verbatim>\<open>Depends(validate_object_id)\<close>, and
  the handler runs on the ObjectId it returns.
\<close>

definition get_pet_by_id_handler :: "objectid \<Rightarrow> collection \<Rightarrow> error + doc" where
  "get_pet_by_id_handler oid c =
     (case find_one [(''_id'', VOid oid)] c of
        Some pet \<Rightarrow>
          if pet \<noteq> [] then assign_id pet
          else Inl (HTTPException 404 (Some ''Pet not found''))
      | None \<Rightarrow> Inl (HTTPException 404 (Some ''Pet not found'')))"

definition get_pet_by_id :: "string \<Rightarrow> collection \<Rightarrow> error + doc" where
  "get_pet_by_id rid c =
     (case validate_object_id (VStr rid) of
        Inl e \<Rightarrow> Inl e
      | Inr oid \<Rightarrow> get_pet_by_id_handler oid c)"

text \<open>
  \<^verbatim>\<open>DELETE /{id_}\<close>: the dependency \<^verbatim>\<open>_get_pet_or_404\<close> runs before the handler, and
  its exception ends the request.
\<close>

definition delete_pet_by_id_handler ::
  "string \<Rightarrow> collection \<Rightarrow> (error + doc option) \<times> collection" where
  "delete_pet_by_id_handler rid c =
     (case ObjectId_init (VStr rid) of
        Inl e \<Rightarrow> (Inl e, c)
      | Inr oid \<Rightarrow>
          (case delete_one [(''_id'', VOid oid)] c of
             (deleted_count, c') \<Rightarrow>
               if deleted_count \<noteq> 0 then
                 (Inr (Some [(''status'', VStr (''deleted count: '' @ str_nat deleted_count))]), c')
               else (Inr None, c')))"

definition delete_pet_by_id ::
  "string \<Rightarrow> collection \<Rightarrow> (error + doc option) \<times> collection" where
  "delete_pet_by_id rid c =
     (case get_pet_or_404 (VStr rid) c of
        Inl e \<Rightarrow> (Inl e, c)
      | Inr _ \<Rightarrow> delete_pet_by_id_handler rid c)"

text \<open>
  \<^verbatim>\<open>PUT /{id_}\<close>: the dependencies \<^verbatim>\<open>validate_object_id\<close> and \<^verbatim>\<open>_get_pet_or_404\<close> run
  in this order before the handler.
\<close>

definition update_pet_handler ::
  "string \<Rightarrow> string \<Rightarrow> doc \<Rightarrow> collection \<Rightarrow> (error + doc) \<times> collection" where
  "update_pet_handler rid date_now pet c =
     (let pet_data = AList.update ''last_modified'' (VStr date_now) pet in
      case ObjectId_init (VStr rid) of
        Inl e \<Rightarrow> (Inl e, c)
      | Inr oid \<Rightarrow>
          (case update_one [(''_id'', VOid oid)] pet_data c of
             Inl e \<Rightarrow> (Inl e, c)
           | Inr (modified_count, c') \<Rightarrow>
               if modified_count \<noteq> 0 then (get_pet_or_404 (VStr rid) c', c')
               else (Inl (HTTPException 304 None), c')))"

definition update_pet ::
  "string \<Rightarrow> string \<Rightarrow> doc \<Rightarrow> collection \<Rightarrow> (error + doc) \<times> collection" where
  "update_pet rid date_now pet c =
     (case validate_object_id (VStr rid) of
        Inl e \<Rightarrow> (Inl e, c)
      | Inr _ \<Rightarrow>
          (case get_pet_or_404 (VStr rid) c of
             Inl e \<Rightarrow> (Inl e, c)
           | Inr _ \<Rightarrow> update_pet_handler rid date_now pet c))"

section \<open>Collections the handlers produce, and runs of requests\<close>

text \<open>
  The documents of a collection that only these handlers write carry an ObjectId
  under \<^verbatim>\<open>_id\<close>, and no two of them carry the same one (the server's unique index).
\<close>

definition has_id :: "objectid \<Rightarrow> doc \<Rightarrow> bool" where
  "has_id oid d = (map_of d ''_id'' = Some (VOid oid))"

definition has_oid :: "doc \<Rightarrow> bool" where
  "has_oid d = (case map_of d ''_id'' of Some (VOid _) \<Rightarrow> True | _ \<Rightarrow> False)"

definition store_inv :: "collection \<Rightarrow> bool" where
  "store_inv c = (list_all has_oid c \<and> distinct (map (\<lambda>d. map_of d ''_id'') c))"

text \<open>An ObjectId the driver generates: 12 bytes, printed as 24 lowercase digits.\<close>

definition wf_oid :: "objectid \<Rightarrow> bool" where
  "wf_oid oid =
     (length (oid_hex oid) = 24 \<and> list_all (\<lambda>ch. ch \<in> set ''0123456789abcdef'') (oid_hex oid))"

text \<open>
  Modelled from the spec: the fields of \<^verbatim>\<open>PetBase\<close> are declared in \<^verbatim>\<open>models.py\<close>, which
  is not among the sources; the spec says a payload has all fields except the identifier
  and the timestamps. A payload is the dictionary \<^verbatim>\<open>pet.dict()\<close>, with none of these keys.
\<close>

definition valid_payload :: "doc \<Rightarrow> bool" where
  "valid_payload pet =
     (distinct (map fst pet)
      \<and> list_all (\<lambda>k. map_of pet k = None) [''_id'', ''id_'', ''created_at'', ''last_modified''])"

text \<open>
  A request that writes, with the reading of the clock and the generated identifier it
  meets; \<open>step\<close> is the collection the request leaves, whatever it answers.
\<close>

datatype request =
    Create objectid string doc
  | Update string string doc
  | Delete string

fun step :: "request \<Rightarrow> collection \<Rightarrow> collection" where
  "step (Create gen date_now pet) c = snd (add_pet True gen date_now pet c)"
| "step (Update rid date_now pet) c = snd (update_pet rid date_now pet c)"
| "step (Delete rid) c = snd (delete_pet_by_id rid c)"

definition run :: "request list \<Rightarrow> collection \<Rightarrow> collection" where
  "run rs c = fold step rs c"

fun clocks :: "request list \<Rightarrow> string list" where
  "clocks [] = []"
| "clocks (Create gen date_now pet # rs) = date_now # clocks rs"
| "clocks (Update rid date_now pet # rs) = date_now # clocks rs"
| "clocks (Delete rid # rs) = clocks rs"

fun payload_ok :: "request \<Rightarrow> bool" where
  "payload_ok (Create gen date_now pet) = valid_payload pet"
| "payload_ok (Update rid date_now pet) = valid_payload pet"
| "payload_ok (Delete rid) = True"

text \<open>
  Timestamps are the strings \<^verbatim>\<open>isoformat()\<close> prints, compared as strings: for these
  the lexicographic order is the order of time.
\<close>

definition stamps :: "doc \<Rightarrow> (string \<times> string) option" where
  "stamps d =
     (case map_of d ''created_at'' of
        Some (VStr a) \<Rightarrow>
          (case map_of d ''last_modified'' of Some (VStr b) \<Rightarrow> Some (a, b) | _ \<Rightarrow> None)
      | _ \<Rightarrow> None)"

definition created_le_modified :: "doc \<Rightarrow> bool" where
  "created_le_modified d = (case stamps d of Some (a, b) \<Rightarrow> a \<le> b | None \<Rightarrow> False)"

definition stamped_by :: "string \<Rightarrow> doc \<Rightarrow> bool" where
  "stamped_by t d = (case stamps d of Some (a, b) \<Rightarrow> a \<le> b \<and> b \<le> t | None \<Rightarrow> False)"

section \<open>Lemmas on the store\<close>

lemma matches_id [simp]: "matches [(''_id'', v)] d = (map_of d ''_id'' = Some v)"
  by (simp add: matches_def)

lemma update_absent: "map_of al k = None \<Longrightarrow> AList.update k v al = al @ [(k, v)]"
  by (induction al) (auto split: if_splits)

lemma hex_lower_id: "ch \<in> set ''0123456789abcdef'' \<Longrightarrow> hex_lower ch = ch \<and> is_hex_digit ch"
  by (auto simp: hex_lower_def is_hex_digit_def)

lemma map_hex_lower_id:
  "list_all (\<lambda>ch. ch \<in> set ''0123456789abcdef'') s \<Longrightarrow> map hex_lower s = s \<and> list_all is_hex_digit s"
  by (induction s) (simp_all add: hex_lower_id del: set_simps)

lemma ObjectId_init_str: "wf_oid oid \<Longrightarrow> ObjectId_init (VStr (oid_hex oid)) = Inr oid"
  using map_hex_lower_id [of "oid_hex oid"] by (simp add: wf_oid_def)

lemma validate_ObjectId_init:
  "validate_object_id x = Inr oid \<Longrightarrow> ObjectId_init x = Inr oid"
  by (simp add: validate_object_id_def split: sum.splits)

lemma find_one_None: "\<not> list_ex (has_id oid) c \<Longrightarrow> find_one [(''_id'', VOid oid)] c = None"
  by (simp add: find_one_def find_None_iff list_ex_iff has_id_def)

lemma find_one_SomeD: "find_one [(''_id'', v)] c = Some d \<Longrightarrow> map_of d ''_id'' = Some v \<and> d \<in> set c"
  by (auto simp: find_one_def find_Some_iff)

lemma list_ex_has_id:
  "list_ex (has_id oid) c \<longleftrightarrow> (\<exists>d\<in>set c. map_of d ''_id'' = Some (VOid oid))"
  by (simp add: list_ex_iff has_id_def)

lemma get_pet_or_404_found:
  assumes "validate_object_id rid = Inr oid"
    and "find_one [(''_id'', VOid oid)] c = Some d"
  shows "get_pet_or_404 rid c = Inr (AList.update ''id_'' (VStr (oid_hex oid)) d)"
proof -
  from assms(2) have id: "map_of d ''_id'' = Some (VOid oid)"
    by (simp add: find_one_SomeD)
  then have "d \<noteq> []" by auto
  with assms id show ?thesis
    by (simp add: get_pet_or_404_def fix_pet_id_def)
qed

lemma find_one_Some_ex:
  "list_ex (has_id oid) c \<Longrightarrow> \<exists>d. find_one [(''_id'', VOid oid)] c = Some d"
  by (cases "find_one [(''_id'', VOid oid)] c")
     (auto simp: find_one_def find_None_iff list_ex_iff has_id_def)

lemma delete_one_by_id:
  assumes "list_ex (has_id oid) c"
    and "distinct (map (\<lambda>d. map_of d ''_id'') c)"
  shows "\<exists>c'. delete_one [(''_id'', VOid oid)] c = (1, c') \<and> \<not> list_ex (has_id oid) c'
           \<and> set c' \<subseteq> set c"
  using assms
proof (induction c)
  case Nil
  then show ?case by simp
next
  case (Cons d c)
  show ?case
  proof (cases "map_of d ''_id'' = Some (VOid oid)")
    case True
    with Cons.prems(2) have "\<not> list_ex (has_id oid) c"
      by (force simp: list_ex_iff has_id_def image_iff)
    with True show ?thesis by (auto simp: list_ex_iff has_id_def)
  next
    case False
    with Cons.prems have "list_ex (has_id oid) c" and "distinct (map (\<lambda>d. map_of d ''_id'') c)"
      by (auto simp: list_ex_iff has_id_def)
    from Cons.IH [OF this] obtain c' where
      "delete_one [(''_id'', VOid oid)] c = (1, c')" "\<not> list_ex (has_id oid) c'" "set c' \<subseteq> set c"
      by blast
    with False show ?thesis by (auto simp: list_ex_iff has_id_def)
  qed
qed

lemma str_nat_1: "str_nat (Suc 0) = ''1''"
  by (simp add: str_nat.simps)

lemma find_append:
  "List.find P (xs @ ys) = (case List.find P xs of Some x \<Rightarrow> Some x | None \<Rightarrow> List.find P ys)"
  by (induction xs) auto

lemma find_one_append_new:
  assumes "\<not> list_ex (has_id oid) c" and "map_of d ''_id'' = Some (VOid oid)"
  shows "find_one [(''_id'', VOid oid)] (c @ [d]) = Some d"
  using find_one_None [OF assms(1)] assms(2)
  by (simp add: find_one_def find_append)

lemma set_fields_Cons: "set_fields ((k, v) # upd) d = set_fields upd (AList.update k v d)"
  by (simp add: set_fields_def)

lemma set_fields_noop: "matches upd d \<Longrightarrow> set_fields upd d = d"
proof (induction upd)
  case Nil
  then show ?case by (simp add: set_fields_def)
next
  case (Cons kv upd)
  obtain k v where kv: "kv = (k, v)" by (cases kv)
  with Cons.prems have "map_of d k = Some v" and "matches upd d"
    by (simp_all add: matches_def)
  with Cons.IH kv show ?case
    by (simp add: set_fields_Cons AList.update_triv)
qed

lemma map_of_set_fields:
  "distinct (map fst upd) \<Longrightarrow> map_of (set_fields upd d) = map_of d ++ map_of upd"
proof (induction upd arbitrary: d)
  case Nil
  then show ?case by (simp add: set_fields_def)
next
  case (Cons kv upd)
  obtain k v where kv: "kv = (k, v)" by (cases kv)
  with Cons.prems have notin: "k \<notin> dom (map_of upd)" and dist: "distinct (map fst upd)"
    by (auto simp: dom_map_of_conv_image_fst)
  have "set_fields (kv # upd) d = set_fields upd (AList.update k v d)"
    using kv by (simp add: set_fields_Cons)
  then have "map_of (set_fields (kv # upd) d) = map_of (AList.update k v d) ++ map_of upd"
    by (simp only: Cons.IH [OF dist])
  also have "\<dots> = (map_of d)(k \<mapsto> v) ++ map_of upd"
    by (simp only: AList.update_conv')
  also have "\<dots> = (map_of d ++ map_of upd)(k \<mapsto> v)"
    using notin by (rule map_add_upd_left)
  finally show ?case
    unfolding kv by (simp only: map_of.simps fst_conv snd_conv map_add_upd)
qed

lemma matches_distinct:
  "distinct (map fst upd) \<Longrightarrow>
     matches upd d \<longleftrightarrow> (\<forall>k v. map_of upd k = Some v \<longrightarrow> map_of d k = Some v)"
  by (auto simp: matches_def list_all_iff)

lemma update_one_found:
  assumes "find_one flt c = Some d"
    and "map_of (set_fields upd d) ''_id'' = map_of d ''_id''"
    and "matches flt (set_fields upd d)"
  shows "\<exists>c'. update_one flt upd c = Inr (if set_fields upd d = d then 0 else 1, c')
           \<and> find_one flt c' = Some (set_fields upd d)
           \<and> (set_fields upd d = d \<longrightarrow> c' = c)"
  using assms(1)
proof (induction c)
  case Nil
  then show ?case by (simp add: find_one_def)
next
  case (Cons e c)
  show ?case
  proof (cases "matches flt e")
    case True
    with Cons.prems have "e = d" by (simp add: find_one_def)
    with True assms(2,3) show ?thesis by (simp add: find_one_def Let_def)
  next
    case False
    with Cons.prems have "find_one flt c = Some d" by (simp add: find_one_def)
    from Cons.IH [OF this] obtain c' where
      "update_one flt upd c = Inr (if set_fields upd d = d then 0 else 1, c')"
      "find_one flt c' = Some (set_fields upd d)" "set_fields upd d = d \<longrightarrow> c' = c"
      by blast
    with False show ?thesis by (simp add: find_one_def)
  qed
qed

lemma set_insert_desc: "set (insert_desc key d es) = insert d (set es)"
  by (induction es) auto

lemma length_insert_desc: "length (insert_desc key d es) = Suc (length es)"
  by (induction es) auto

lemma set_sort_desc: "set (sort_desc key ds) = set ds"
  by (induction ds) (simp_all add: sort_desc_def set_insert_desc)

lemma length_sort_desc: "length (sort_desc key ds) = length ds"
  by (induction ds) (simp_all add: sort_desc_def length_insert_desc)

lemma set_find_cursor: "set (find_cursor flt s l c) \<subseteq> set c"
proof -
  have "set (find_cursor flt s l c) \<subseteq> set (sort_desc ''created_at'' (filter (matches flt) c))"
    unfolding find_cursor_def
    by (meson set_take_subset set_drop_subset subset_trans)
  then show ?thesis by (auto simp: set_sort_desc)
qed

lemma length_find_cursor: "length (find_cursor flt s l c) \<le> l"
  by (simp add: find_cursor_def)

lemma fix_pet_id_has_oid: "has_oid d \<Longrightarrow> \<exists>p. fix_pet_id d = Inr p"
  by (auto simp: has_oid_def fix_pet_id_def split: option.splits pyval.splits)

lemma map_fix_has_oid:
  "list_all has_oid ps \<Longrightarrow> \<exists>ps'. map_fix ps = Inr ps' \<and> length ps' = length ps"
proof (induction ps)
  case Nil
  then show ?case by simp
next
  case (Cons p ps)
  then obtain p' ps' where "fix_pet_id p = Inr p'" "map_fix ps = Inr ps'" "length ps' = length ps"
    using fix_pet_id_has_oid [of p] by auto
  then show ?case by simp
qed

text \<open>
  \<^verbatim>\<open>update_pet\<close> on a payload whose fields all equal the stored ones: the store reports
  no modification, and the handler raises 304, only when the clock gives the very string
  stored under \<^verbatim>\<open>last_modified\<close>; with any other reading the document is stamped again
  and returned.
\<close>

lemma update_same_payload:
  assumes "validate_object_id (VStr rid) = Inr oid"
    and "find_one [(''_id'', VOid oid)] c = Some d"
    and "distinct (map fst pet)"
    and "matches pet d"
  shows "(map_of d ''last_modified'' = Some (VStr date_now) \<longrightarrow>
            update_pet rid date_now pet c = (Inl (HTTPException 304 None), c))
       \<and> (map_of d ''last_modified'' \<noteq> Some (VStr date_now) \<longrightarrow>
            (\<exists>p c'. update_pet rid date_now pet c = (Inr p, c')
               \<and> map_of p ''last_modified'' = Some (VStr date_now)
               \<and> map_of p ''id_'' = Some (VStr (oid_hex oid))
               \<and> (\<forall>k. k \<noteq> ''last_modified'' \<and> k \<noteq> ''id_'' \<longrightarrow> map_of p k = map_of d k)
               \<and> get_pet_by_id rid c' = Inr p))"
proof -
  let ?data = "AList.update ''last_modified'' (VStr date_now) pet"
  let ?d' = "set_fields ?data d"
  let ?flt = "[(''_id'', VOid oid)]"
  have dist: "distinct (map fst ?data)"
    using assms(3) by (rule AList.distinct_update)
  have same: "\<And>k v. map_of pet k = Some v \<Longrightarrow> map_of d k = Some v"
    using assms(3,4) by (simp add: matches_distinct)
  have look: "map_of ?d' = map_of d ++ (map_of pet)(''last_modified'' \<mapsto> VStr date_now)"
    using map_of_set_fields [OF dist] by (simp add: AList.update_conv')
  have stamp: "map_of ?d' ''last_modified'' = Some (VStr date_now)"
    by (simp add: look)
  have rest: "map_of ?d' k = map_of d k" if "k \<noteq> ''last_modified''" for k
    using that same [of k] by (cases "map_of pet k") (simp_all add: look map_add_def)
  from assms(2) have id: "map_of d ''_id'' = Some (VOid oid)"
    by (simp add: find_one_SomeD)
  have id': "map_of ?d' ''_id'' = map_of d ''_id''"
    by (rule rest) simp
  from update_one_found [OF assms(2) id'] id id' obtain c' where
    upd: "update_one ?flt ?data c = Inr (if ?d' = d then 0 else 1, c')"
    and found: "find_one ?flt c' = Some ?d'" and unchanged: "?d' = d \<longrightarrow> c' = c"
    by auto
  have dep: "get_pet_or_404 (VStr rid) c = Inr (AList.update ''id_'' (VStr (oid_hex oid)) d)"
    by (rule get_pet_or_404_found [OF assms(1,2)])
  have init: "ObjectId_init (VStr rid) = Inr oid"
    by (rule validate_ObjectId_init [OF assms(1)])
  have route: "update_pet rid date_now pet c =
      (if ?d' = d then (Inl (HTTPException 304 None), c')
       else (get_pet_or_404 (VStr rid) c', c'))"
    unfolding update_pet_def update_pet_handler_def Let_def
    using assms(1) dep init upd by simp
  show ?thesis
  proof (intro conjI impI)
    assume now: "map_of d ''last_modified'' = Some (VStr date_now)"
    have "matches ?data d"
      using dist same now
      by (auto simp: matches_distinct AList.update_conv' split: if_splits)
    then have "?d' = d" by (rule set_fields_noop)
    with route unchanged
    show "update_pet rid date_now pet c = (Inl (HTTPException 304 None), c)"
      by simp
  next
    assume other: "map_of d ''last_modified'' \<noteq> Some (VStr date_now)"
    let ?p = "AList.update ''id_'' (VStr (oid_hex oid)) ?d'"
    from other stamp have "?d' \<noteq> d" by auto
    with route get_pet_or_404_found [OF assms(1) found]
    have res: "update_pet rid date_now pet c = (Inr ?p, c')"
      by simp
    have "?d' \<noteq> []"
      using id id' by auto
    then have get: "get_pet_by_id rid c' = Inr ?p"
      using assms(1) found id id'
      by (simp add: get_pet_by_id_def get_pet_by_id_handler_def assign_id_def)
    have "map_of ?p ''last_modified'' = Some (VStr date_now)"
      using stamp by (simp add: AList.update_conv')
    moreover have "map_of ?p ''id_'' = Some (VStr (oid_hex oid))"
      by (simp add: AList.update_conv')
    moreover have "\<forall>k. k \<noteq> ''last_modified'' \<and> k \<noteq> ''id_'' \<longrightarrow> map_of ?p k = map_of d k"
      using rest by (simp add: AList.update_conv')
    ultimately show "\<exists>p c'. update_pet rid date_now pet c = (Inr p, c')
               \<and> map_of p ''last_modified'' = Some (VStr date_now)
               \<and> map_of p ''id_'' = Some (VStr (oid_hex oid))
               \<and> (\<forall>k. k \<noteq> ''last_modified'' \<and> k \<noteq> ''id_'' \<longrightarrow> map_of p k = map_of d k)
               \<and> get_pet_by_id rid c' = Inr p"
      using res get by blast
  qed
qed

subsection \<open>Timestamps along a run\<close>

lemma stampsI:
  "map_of d ''created_at'' = Some (VStr a) \<Longrightarrow> map_of d ''last_modified'' = Some (VStr b)
     \<Longrightarrow> stamps d = Some (a, b)"
  by (simp add: stamps_def)

lemma stampsD:
  "stamps d = Some (a, b) \<Longrightarrow>
     map_of d ''created_at'' = Some (VStr a) \<and> map_of d ''last_modified'' = Some (VStr b)"
  by (simp add: stamps_def split: option.splits pyval.splits)

lemma stamped_byD:
  "stamped_by t d \<Longrightarrow> \<exists>a b. stamps d = Some (a, b) \<and> a \<le> b \<and> b \<le> t"
  by (cases "stamps d") (simp_all add: stamped_by_def split: prod.splits)

lemma stamped_by_mono:
  assumes "stamped_by t d" and "t \<le> t'"
  shows "stamped_by t' d"
proof -
  from stamped_byD [OF assms(1)] obtain a b where
    s: "stamps d = Some (a, b)" and ab: "a \<le> b" and bt: "b \<le> t"
    by blast
  from bt assms(2) have "b \<le> t'" by (rule order_trans)
  with s ab show ?thesis by (simp add: stamped_by_def)
qed

lemma stamped_by_created_le_modified: "stamped_by t d \<Longrightarrow> created_le_modified d"
  using stamped_byD [of t d] by (auto simp: created_le_modified_def)

lemma stamped_by_stamps:
  "map_of d ''created_at'' = Some (VStr a) \<Longrightarrow> map_of d ''last_modified'' = Some (VStr b)
     \<Longrightarrow> a \<le> b \<Longrightarrow> b \<le> t \<Longrightarrow> stamped_by t d"
  by (simp add: stamped_by_def stampsI)

lemma insert_one_all:
  assumes "insert_one reports_id gen d c = Inr (i, c')"
    and "list_all P c" and "P d" and "P ((''_id'', VOid gen) # d)"
  shows "list_all P c'"
  using assms by (auto simp: insert_one_def Let_def split: option.splits if_splits)

lemma add_pet_snd:
  "snd (add_pet reports_id gen date_now pet c) = c
   \<or> (\<exists>i. insert_one reports_id gen (AList.update ''created_at'' (VStr date_now)
                (AList.update ''last_modified'' (VStr date_now) pet)) c
             = Inr (i, snd (add_pet reports_id gen date_now pet c)))"
  by (auto simp: add_pet_def Let_def split: sum.splits prod.splits option.splits)

lemma step_Create:
  assumes "list_all (stamped_by t) c" and "t \<le> date_now"
  shows "list_all (stamped_by date_now) (step (Create gen date_now pet) c)"
proof -
  let ?data = "AList.update ''created_at'' (VStr date_now)
                 (AList.update ''last_modified'' (VStr date_now) pet)"
  have old: "list_all (stamped_by date_now) c"
    using assms by (auto simp: list_all_iff intro: stamped_by_mono)
  have new: "stamped_by date_now ?data"
    by (rule stamped_by_stamps [of _ date_now date_now]) (simp_all add: AList.update_conv')
  have new': "stamped_by date_now ((''_id'', VOid gen) # ?data)"
    by (rule stamped_by_stamps [of _ date_now date_now]) (simp_all add: AList.update_conv')
  from add_pet_snd [of True gen date_now pet c] show ?thesis
  proof
    assume "snd (add_pet True gen date_now pet c) = c"
    with old show ?thesis by simp
  next
    assume "\<exists>i. insert_one True gen ?data c = Inr (i, snd (add_pet True gen date_now pet c))"
    then obtain i where "insert_one True gen ?data c = Inr (i, snd (add_pet True gen date_now pet c))"
      by blast
    from insert_one_all [OF this old new new'] show ?thesis by simp
  qed
qed

lemma update_one_all:
  assumes "update_one flt upd c = Inr (n, c')"
    and "list_all P c" and "\<And>d. P d \<Longrightarrow> P (set_fields upd d)"
  shows "list_all P c'"
  using assms(1,2)
proof (induction c arbitrary: n c')
  case Nil
  then show ?case by simp
next
  case (Cons d c)
  show ?case
  proof (cases "matches flt d")
    case True
    with Cons.prems assms(3) [of d] show ?thesis
      by (auto simp: Let_def split: if_splits)
  next
    case False
    with Cons.prems obtain c'' where "update_one flt upd c = Inr (n, c'')" "c' = d # c''"
      by (auto split: sum.splits prod.splits)
    with Cons.IH [of n c''] Cons.prems(2) show ?thesis by simp
  qed
qed

lemma update_pet_snd:
  "snd (update_pet rid date_now pet c) = c
   \<or> (\<exists>flt n. update_one flt (AList.update ''last_modified'' (VStr date_now) pet) c
             = Inr (n, snd (update_pet rid date_now pet c)))"
  by (auto simp: update_pet_def update_pet_handler_def Let_def split: sum.splits prod.splits)

lemma step_Update:
  assumes "list_all (stamped_by t) c" and "t \<le> date_now" and "valid_payload pet"
  shows "list_all (stamped_by date_now) (step (Update rid date_now pet) c)"
proof -
  let ?data = "AList.update ''last_modified'' (VStr date_now) pet"
  have old: "list_all (stamped_by date_now) c"
    using assms(1,2) by (auto simp: list_all_iff intro: stamped_by_mono)
  from assms(3) have dist: "distinct (map fst pet)" and nocr: "map_of pet ''created_at'' = None"
    by (simp_all add: valid_payload_def)
  have dist': "distinct (map fst ?data)"
    using dist by (rule AList.distinct_update)
  have keep: "stamped_by date_now (set_fields ?data d)" if "stamped_by date_now d" for d
  proof -
    from stamped_byD [OF that] obtain a b where
      s: "stamps d = Some (a, b)" and ab: "a \<le> b" and bt: "b \<le> date_now"
      by blast
    from stampsD [OF s] have a: "map_of d ''created_at'' = Some (VStr a)"
      by simp
    from ab bt have le: "a \<le> date_now" by (rule order_trans)
    have look: "map_of (set_fields ?data d) = map_of d ++ (map_of pet)(''last_modified'' \<mapsto> VStr date_now)"
      using map_of_set_fields [OF dist'] by (simp add: AList.update_conv')
    have "map_of (set_fields ?data d) ''created_at'' = Some (VStr a)"
      using a nocr by (simp add: look map_add_def)
    moreover have "map_of (set_fields ?data d) ''last_modified'' = Some (VStr date_now)"
      by (simp add: look)
    ultimately show ?thesis
      using le by (rule stamped_by_stamps) simp
  qed
  from update_pet_snd [of rid date_now pet c] show ?thesis
  proof
    assume "snd (update_pet rid date_now pet c) = c"
    with old show ?thesis by simp
  next
    assume "\<exists>flt n. update_one flt ?data c = Inr (n, snd (update_pet rid date_now pet c))"
    then obtain flt n where "update_one flt ?data c = Inr (n, snd (update_pet rid date_now pet c))"
      by blast
    from update_one_all [OF this old keep] show ?thesis by simp
  qed
qed

lemma set_delete_one: "set (snd (delete_one flt c)) \<subseteq> set c"
  by (induction c) (auto split: prod.splits)

lemma delete_one_subset: "delete_one flt c = (n, c') \<Longrightarrow> x \<in> set c' \<Longrightarrow> x \<in> set c"
  using set_delete_one [of flt c] by auto

lemma step_Delete:
  assumes "list_all (stamped_by t) c"
  shows "list_all (stamped_by t) (step (Delete rid) c)"
proof -
  have "set (step (Delete rid) c) \<subseteq> set c"
    by (auto simp: delete_pet_by_id_def delete_pet_by_id_handler_def
          split: sum.splits prod.splits if_splits dest: delete_one_subset)
  with assms show ?thesis by (auto simp: list_all_iff)
qed

lemma run_stamped:
  assumes "list_all (stamped_by t0) c"
    and "sorted (t0 # clocks rs)"
    and "list_all payload_ok rs"
  shows "\<exists>t. list_all (stamped_by t) (run rs c)"
  using assms
proof (induction rs arbitrary: c t0)
  case Nil
  then show ?case by (auto simp: run_def)
next
  case (Cons r rs)
  show ?case
  proof (cases r)
    case (Create gen date_now pet)
    with Cons.prems have le: "t0 \<le> date_now" and srt: "sorted (date_now # clocks rs)"
      and ok: "list_all payload_ok rs"
      by auto
    from step_Create [OF Cons.prems(1) le]
    have "list_all (stamped_by date_now) (step r c)" using Create by simp
    from Cons.IH [OF this srt ok] show ?thesis by (simp add: run_def)
  next
    case (Update rid date_now pet)
    with Cons.prems have le: "t0 \<le> date_now" and srt: "sorted (date_now # clocks rs)"
      and ok: "list_all payload_ok rs" and pay: "valid_payload pet"
      by auto
    from step_Update [OF Cons.prems(1) le pay]
    have "list_all (stamped_by date_now) (step r c)" using Update by simp
    from Cons.IH [OF this srt ok] show ?thesis by (simp add: run_def)
  next
    case (Delete rid)
    with Cons.prems have srt: "sorted (t0 # clocks rs)" and ok: "list_all payload_ok rs"
      by auto
    from step_Delete [OF Cons.prems(1)]
    have "list_all (stamped_by t0) (step r c)" using Delete by simp
    from Cons.IH [OF this srt ok] show ?thesis by (simp add: run_def)
  qed
qed


section \<open>The claims\<close>

text \<open>
  C4. For every raw identifier string that parses as a valid identifier but matches no
  stored document, update yields the PetNotFound error (status 404), and no write is
  attempted: the collection it leaves is the collection it found, so no
  \<^verbatim>\<open>last_modified\<close> is touched.
\<close>

theorem update_unknown_id:
  assumes "validate_object_id (VStr rid) = Inr oid"
    and "\<not> list_ex (has_id oid) c"
  shows "update_pet rid date_now pet c = (Inl (HTTPException 404 (Some ''Pet not found'')), c)"
  using assms by (simp add: update_pet_def get_pet_or_404_def find_one_None)

theorem update_unknown_id_witness:
  "update_pet ''5f0c1a2b3c4d5e6f70819204'' ''2020-01-02T00:00:00'' [(''name'', VStr ''Max'')]
      [[(''_id'', VOid (ObjectId ''5f0c1a2b3c4d5e6f70819203'')), (''name'', VStr ''Rex'')]]
   = (Inl (HTTPException 404 (Some ''Pet not found'')),
      [[(''_id'', VOid (ObjectId ''5f0c1a2b3c4d5e6f70819203'')), (''name'', VStr ''Rex'')]])"
  by (rule update_unknown_id [where oid = "ObjectId ''5f0c1a2b3c4d5e6f70819204''"])
     (simp_all add: validate_object_id_def is_hex_digit_def hex_lower_def has_id_def)

text \<open>
  C6. For every collection and filter, list called with a negative skip returns what
  list with skip 0 returns, and list called with a limit of 0 or less returns what list
  with limit 10 returns.
\<close>

theorem list_normalizes:
  "(skip < 0 \<longrightarrow> get_all_pets kind status limit skip c = get_all_pets kind status limit 0 c)
   \<and> (limit \<le> 0 \<longrightarrow> get_all_pets kind status limit skip c = get_all_pets kind status 10 skip c)"
  by (simp add: get_all_pets_def)

theorem list_normalizes_witness:
  "get_all_pets None (Some (PetStatus ''available'')) 0 (- 3)
      [[(''_id'', VOid (ObjectId ''5f0c1a2b3c4d5e6f70819203'')), (''status'', VStr ''available'')]]
   = get_all_pets None (Some (PetStatus ''available'')) 0 0
      [[(''_id'', VOid (ObjectId ''5f0c1a2b3c4d5e6f70819203'')), (''status'', VStr ''available'')]]
   \<and> get_all_pets None (Some (PetStatus ''available'')) 0 (- 3)
      [[(''_id'', VOid (ObjectId ''5f0c1a2b3c4d5e6f70819203'')), (''status'', VStr ''available'')]]
   = get_all_pets None (Some (PetStatus ''available'')) 10 (- 3)
      [[(''_id'', VOid (ObjectId ''5f0c1a2b3c4d5e6f70819203'')), (''status'', VStr ''available'')]]"
proof -
  have neg: "(- 3 :: int) < 0" and le: "(0 :: int) \<le> 0"
    by simp_all
  from list_normalizes [of "- 3" None "Some (PetStatus ''available'')" 0
      "[[(''_id'', VOid (ObjectId ''5f0c1a2b3c4d5e6f70819203'')), (''status'', VStr ''available'')]]"]
    neg le
  show ?thesis by blast
qed

text \<open>
  C7. For every combination of the optional kind and status inputs to list, the query
  filter is an equality filter with exactly the keys whose inputs were supplied: empty
  when neither is supplied, status only, kind only, or both.
\<close>

theorem filter_db_cases:
  "filter_db None None = []
   \<and> filter_db None (Some s) = [(''status'', VStr (status_value s))]
   \<and> filter_db (Some k) None = [(''kind'', VStr (kind_value k))]
   \<and> filter_db (Some k) (Some s)
       = [(''status'', VStr (status_value s)), (''kind'', VStr (kind_value k))]"
  by (simp add: filter_db_def)

text \<open>
  C10, as amended. For every document with a truthy value under \<^verbatim>\<open>_id\<close>,
  \<^verbatim>\<open>fix_pet_id\<close> returns the document with the field \<^verbatim>\<open>id_\<close> set to the string form of
  \<^verbatim>\<open>_id\<close>, added as the last field when the document had none and overwritten in place
  when it had one, and every other field unchanged; for a document with no truthy
  \<^verbatim>\<open>_id\<close> it raises \<^verbatim>\<open>ValueError\<close>.
\<close>

theorem fix_pet_id_sets_id:
  "(map_of pet ''_id'' = Some v \<and> truthy v \<longrightarrow>
      (\<exists>r. fix_pet_id pet = Inr r
         \<and> map_of r ''id_'' = Some (VStr (py_str v))
         \<and> (\<forall>k. k \<noteq> ''id_'' \<longrightarrow> map_of r k = map_of pet k)
         \<and> map fst r
             = (if ''id_'' \<in> set (map fst pet) then map fst pet else map fst pet @ [''id_''])))
   \<and> (\<not> (\<exists>w. map_of pet ''_id'' = Some w \<and> truthy w) \<longrightarrow> fix_pet_id pet = Inl ValueError)"
  by (auto simp: fix_pet_id_def AList.update_conv' AList.update_keys split: option.splits)

theorem fix_pet_id_sets_id_witness:
  "(\<exists>r. fix_pet_id [(''_id'', VOid (ObjectId ''5f0c1a2b3c4d5e6f70819203'')), (''name'', VStr ''Rex'')]
          = Inr r
         \<and> map_of r ''id_'' = Some (VStr ''5f0c1a2b3c4d5e6f70819203'')
         \<and> map_of r ''name'' = Some (VStr ''Rex'')
         \<and> map fst r = [''_id'', ''name'', ''id_''])
   \<and> fix_pet_id [(''name'', VStr ''Rex'')] = Inl ValueError"
  using fix_pet_id_sets_id [of "[(''_id'', VOid (ObjectId ''5f0c1a2b3c4d5e6f70819203'')), (''name'', VStr ''Rex'')]"
          "VOid (ObjectId ''5f0c1a2b3c4d5e6f70819203'')"]
        fix_pet_id_sets_id [of "[(''name'', VStr ''Rex'')]" "VInt 0"]
  by (simp add: fix_pet_id_def)

text \<open>
  C10 as stated fails on a document that already has the field \<^verbatim>\<open>id_\<close>: no field is
  added, and the field \<^verbatim>\<open>id_\<close> it had is changed.
\<close>

theorem fix_pet_id_adds_field_counterexample:
  "fix_pet_id
     [(''_id'', VOid (ObjectId ''5f0c1a2b3c4d5e6f70819203'')), (''id_'', VStr ''old'')]
   = Inr [(''_id'', VOid (ObjectId ''5f0c1a2b3c4d5e6f70819203'')),
          (''id_'', VStr ''5f0c1a2b3c4d5e6f70819203'')]"
  by (simp add: fix_pet_id_def)

text \<open>
  C8. In a collection of documents with distinct ObjectIds, for every stored document,
  delete on its identifier answers \<^verbatim>\<open>deleted count: 1\<close> and a get on the same
  identifier then yields PetNotFound (status 404); and delete on an identifier that no
  document has yields PetNotFound and leaves the collection as it was, since the
  dependency checks existence before the handler deletes.
\<close>

theorem delete_then_get:
  assumes "store_inv c"
    and "validate_object_id (VStr rid) = Inr oid"
  shows "(list_ex (has_id oid) c \<longrightarrow>
            (\<exists>c'. delete_pet_by_id rid c = (Inr (Some [(''status'', VStr ''deleted count: 1'')]), c')
               \<and> get_pet_by_id rid c' = Inl (HTTPException 404 (Some ''Pet not found''))))
       \<and> (\<not> list_ex (has_id oid) c \<longrightarrow>
            delete_pet_by_id rid c = (Inl (HTTPException 404 (Some ''Pet not found'')), c))"
proof (intro conjI impI)
  assume ex: "list_ex (has_id oid) c"
  from find_one_Some_ex [OF ex] obtain d where d: "find_one [(''_id'', VOid oid)] c = Some d"
    by blast
  from assms(1) have dist: "distinct (map (\<lambda>d. map_of d ''_id'') c)"
    by (simp add: store_inv_def)
  from delete_one_by_id [OF ex dist] obtain c' where
    del: "delete_one [(''_id'', VOid oid)] c = (1, c')" and gone: "\<not> list_ex (has_id oid) c'"
    by blast
  have "delete_pet_by_id rid c = (Inr (Some [(''status'', VStr ''deleted count: 1'')]), c')"
    using get_pet_or_404_found [OF assms(2) d] validate_ObjectId_init [OF assms(2)] del
    by (simp add: delete_pet_by_id_def delete_pet_by_id_handler_def str_nat_1)
  moreover have "get_pet_by_id rid c' = Inl (HTTPException 404 (Some ''Pet not found''))"
    using assms(2) find_one_None [OF gone]
    by (simp add: get_pet_by_id_def get_pet_by_id_handler_def)
  ultimately show "\<exists>c'. delete_pet_by_id rid c = (Inr (Some [(''status'', VStr ''deleted count: 1'')]), c')
               \<and> get_pet_by_id rid c' = Inl (HTTPException 404 (Some ''Pet not found''))"
    by blast
next
  assume "\<not> list_ex (has_id oid) c"
  with assms(2) show "delete_pet_by_id rid c = (Inl (HTTPException 404 (Some ''Pet not found'')), c)"
    by (simp add: delete_pet_by_id_def get_pet_or_404_def find_one_None)
qed

theorem delete_then_get_witness:
  "(\<exists>c'. delete_pet_by_id ''5f0c1a2b3c4d5e6f70819203''
            [[(''_id'', VOid (ObjectId ''5f0c1a2b3c4d5e6f70819203'')), (''name'', VStr ''Rex'')]]
          = (Inr (Some [(''status'', VStr ''deleted count: 1'')]), c')
        \<and> get_pet_by_id ''5f0c1a2b3c4d5e6f70819203'' c'
          = Inl (HTTPException 404 (Some ''Pet not found'')))
   \<and> delete_pet_by_id ''5f0c1a2b3c4d5e6f70819203'' []
       = (Inl (HTTPException 404 (Some ''Pet not found'')), [])"
proof -
  have v: "validate_object_id (VStr ''5f0c1a2b3c4d5e6f70819203'')
             = Inr (ObjectId ''5f0c1a2b3c4d5e6f70819203'')"
    by (simp add: validate_object_id_def is_hex_digit_def hex_lower_def)
  have i1: "store_inv [[(''_id'', VOid (ObjectId ''5f0c1a2b3c4d5e6f70819203'')), (''name'', VStr ''Rex'')]]"
    by (simp add: store_inv_def has_oid_def)
  have i2: "store_inv []"
    by (simp add: store_inv_def)
  have e1: "list_ex (has_id (ObjectId ''5f0c1a2b3c4d5e6f70819203''))
              [[(''_id'', VOid (ObjectId ''5f0c1a2b3c4d5e6f70819203'')), (''name'', VStr ''Rex'')]]"
    by (simp add: has_id_def)
  have e2: "\<not> list_ex (has_id (ObjectId ''5f0c1a2b3c4d5e6f70819203'')) []"
    by simp
  from delete_then_get [OF i1 v] delete_then_get [OF i2 v] e1 e2 show ?thesis
    by blast
qed



text \<open>
  C1. For every valid pet payload (the fields of the pet, without identifier and
  timestamps) and every fresh identifier the driver generates, create returns a
  document whose \<^verbatim>\<open>id_\<close> is the text of the identifier, and get with that text returns
  the same document: the store's \<^verbatim>\<open>_id\<close>, then the fields of the payload as given, then
  \<^verbatim>\<open>last_modified\<close> and \<^verbatim>\<open>created_at\<close>, both the one string the clock gave, then \<^verbatim>\<open>id_\<close>.
\<close>

theorem create_then_get:
  assumes "valid_payload pet"
    and "wf_oid gen"
    and "\<not> list_ex (has_id gen) c"
  shows "\<exists>p c'. add_pet True gen date_now pet c = (Inr (Some p), c')
           \<and> map_of p ''id_'' = Some (VStr (oid_hex gen))
           \<and> get_pet_by_id (oid_hex gen) c' = Inr p
           \<and> p = (''_id'', VOid gen) # pet
                   @ [(''last_modified'', VStr date_now), (''created_at'', VStr date_now),
                      (''id_'', VStr (oid_hex gen))]"
proof -
  let ?data = "pet @ [(''last_modified'', VStr date_now), (''created_at'', VStr date_now)]"
  let ?d = "(''_id'', VOid gen) # ?data"
  let ?p = "?d @ [(''id_'', VStr (oid_hex gen))]"
  from assms(1) have absent:
    "map_of pet ''_id'' = None" "map_of pet ''id_'' = None"
    "map_of pet ''created_at'' = None" "map_of pet ''last_modified'' = None"
    by (simp_all add: valid_payload_def)
  have data: "AList.update ''created_at'' (VStr date_now)
                (AList.update ''last_modified'' (VStr date_now) pet) = ?data"
    using absent by (simp add: update_absent)
  have no_id: "map_of ?data ''_id'' = None"
    using absent by simp
  have fresh: "\<not> list_ex (\<lambda>e. map_of e ''_id'' = Some (VOid gen)) c"
    using assms(3) by (simp add: list_ex_iff has_id_def)
  have ins: "insert_one True gen ?data c = Inr (Some (VOid gen), c @ [?d])"
    using absent fresh by (simp add: insert_one_def Let_def map_add_def)
  have found: "find_one [(''_id'', VOid gen)] (c @ [?d]) = Some ?d"
    by (rule find_one_append_new [OF assms(3)]) simp
  have p: "AList.update ''id_'' (VStr (oid_hex gen)) ?d = ?p"
    using absent by (simp add: update_absent)
  have fetch: "get_pet_or_404 (VOid gen) (c @ [?d]) = Inr ?p"
    using get_pet_or_404_found [OF _ found, of "VOid gen"] p
    by (simp add: validate_object_id_def)
  have idf: "map_of ?p ''id_'' = Some (VStr (oid_hex gen))"
    using absent by (simp add: map_add_def)
  have again: "assign_id ?p = Inr ?p"
    using AList.update_triv [OF idf] by (simp add: assign_id_def)
  have create: "add_pet True gen date_now pet c = (Inr (Some ?p), c @ [?d])"
    unfolding add_pet_def data Let_def ins using fetch again by simp
  have valid: "validate_object_id (VStr (oid_hex gen)) = Inr gen"
    using ObjectId_init_str [OF assms(2)] by (simp add: validate_object_id_def)
  have assign: "assign_id ?d = Inr ?p"
    using p by (simp add: assign_id_def)
  have get: "get_pet_by_id (oid_hex gen) (c @ [?d]) = Inr ?p"
    using valid found assign by (simp add: get_pet_by_id_def get_pet_by_id_handler_def)
  from create get idf show ?thesis
    by (intro exI [of _ ?p] exI [of _ "c @ [?d]"]) simp
qed

theorem create_then_get_witness:
  "\<exists>p c'. add_pet True (ObjectId ''5f0c1a2b3c4d5e6f70819203'') ''2020-01-01T00:00:00''
             [(''kind'', VStr ''dog''), (''status'', VStr ''available''), (''name'', VStr ''Rex'')] []
           = (Inr (Some p), c')
         \<and> map_of p ''id_'' = Some (VStr ''5f0c1a2b3c4d5e6f70819203'')
         \<and> get_pet_by_id ''5f0c1a2b3c4d5e6f70819203'' c' = Inr p
         \<and> p = [(''_id'', VOid (ObjectId ''5f0c1a2b3c4d5e6f70819203'')),
                 (''kind'', VStr ''dog''), (''status'', VStr ''available''), (''name'', VStr ''Rex''),
                 (''last_modified'', VStr ''2020-01-01T00:00:00''),
                 (''created_at'', VStr ''2020-01-01T00:00:00''),
                 (''id_'', VStr ''5f0c1a2b3c4d5e6f70819203'')]"
proof -
  have a: "valid_payload [(''kind'', VStr ''dog''), (''status'', VStr ''available''), (''name'', VStr ''Rex'')]"
    by (simp add: valid_payload_def)
  have b: "wf_oid (ObjectId ''5f0c1a2b3c4d5e6f70819203'')"
    by (simp add: wf_oid_def)
  have c: "\<not> list_ex (has_id (ObjectId ''5f0c1a2b3c4d5e6f70819203'')) []"
    by simp
  from create_then_get [OF a b c, of "''2020-01-01T00:00:00''"] show ?thesis
    by simp
qed

text \<open>
  C2. The claim is that update with a payload identical to the stored fields yields
  NotModified (status 304). The handler raises 304 when the store reports no
  modification, but it stamps \<^verbatim>\<open>last_modified\<close> into the very \<^verbatim>\<open>$set\<close> it sends: a stored
  pet, updated a day later with the fields it already has, is written and returned,
  \<^verbatim>\<open>last_modified\<close> stamped again, where the claim says 304.
\<close>

theorem update_same_payload_restamps:
  "update_pet ''5f0c1a2b3c4d5e6f70819203'' ''2020-01-02T00:00:00''
     [(''kind'', VStr ''dog''), (''status'', VStr ''available''), (''name'', VStr ''Rex'')]
     [[(''_id'', VOid (ObjectId ''5f0c1a2b3c4d5e6f70819203'')),
       (''kind'', VStr ''dog''), (''status'', VStr ''available''), (''name'', VStr ''Rex''),
       (''last_modified'', VStr ''2020-01-01T00:00:00''),
       (''created_at'', VStr ''2020-01-01T00:00:00'')]]
   = (Inr [(''_id'', VOid (ObjectId ''5f0c1a2b3c4d5e6f70819203'')),
           (''kind'', VStr ''dog''), (''status'', VStr ''available''), (''name'', VStr ''Rex''),
           (''last_modified'', VStr ''2020-01-02T00:00:00''),
           (''created_at'', VStr ''2020-01-01T00:00:00''),
           (''id_'', VStr ''5f0c1a2b3c4d5e6f70819203'')],
      [[(''_id'', VOid (ObjectId ''5f0c1a2b3c4d5e6f70819203'')),
        (''kind'', VStr ''dog''), (''status'', VStr ''available''), (''name'', VStr ''Rex''),
        (''last_modified'', VStr ''2020-01-02T00:00:00''),
        (''created_at'', VStr ''2020-01-01T00:00:00'')]])"
  by (simp add: update_pet_def update_pet_handler_def get_pet_or_404_def validate_object_id_def
        find_one_def fix_pet_id_def set_fields_def is_hex_digit_def hex_lower_def)

text \<open>
  C5. For every collection of documents that carry an ObjectId, and every skip and
  limit, list returns a result; it holds at most \<open>limit\<close> documents (at most 10 when
  \<open>limit\<close> is 0 or less), and its count is the number of documents of the whole
  collection that match the filter, whatever skip and limit are.
\<close>

theorem list_page_and_count:
  assumes "list_all has_oid c"
  shows "\<exists>ps. get_all_pets kind status limit skip c
               = Inr \<lparr>pets = ps, count = length (filter (matches (filter_db kind status)) c)\<rparr>
           \<and> int (length ps) \<le> (if limit \<le> 0 then 10 else limit)"
proof -
  let ?l = "nat (if limit \<le> 0 then 10 else limit)"
  let ?s = "nat (if skip < 0 then 0 else skip)"
  let ?page = "take ?l (find_cursor (filter_db kind status) ?s ?l c)"
  have "set ?page \<subseteq> set c"
    using set_find_cursor [of "filter_db kind status" ?s ?l c]
    by (meson set_take_subset subset_trans)
  with assms have "list_all has_oid ?page"
    by (auto simp: list_all_iff)
  from map_fix_has_oid [OF this] obtain ps where
    ps: "map_fix ?page = Inr ps" and len: "length ps = length ?page"
    by blast
  have "length ?page \<le> ?l" by simp
  with len have "int (length ps) \<le> (if limit \<le> 0 then 10 else limit)"
    by (simp split: if_splits)
  moreover have "get_all_pets kind status limit skip c
      = Inr \<lparr>pets = ps, count = length (filter (matches (filter_db kind status)) c)\<rparr>"
    using ps by (simp add: get_all_pets_def Let_def count_documents_def)
  ultimately show ?thesis by blast
qed

theorem list_page_and_count_witness:
  "\<exists>ps. get_all_pets None (Some (PetStatus ''available'')) 1 0
      [[(''_id'', VOid (ObjectId ''5f0c1a2b3c4d5e6f70819203'')), (''status'', VStr ''available'')],
       [(''_id'', VOid (ObjectId ''5f0c1a2b3c4d5e6f70819204'')), (''status'', VStr ''available'')],
       [(''_id'', VOid (ObjectId ''5f0c1a2b3c4d5e6f70819205'')), (''status'', VStr ''adopted'')]]
     = Inr \<lparr>pets = ps, count = 2\<rparr> \<and> length ps \<le> 1"
proof -
  let ?c = "[[(''_id'', VOid (ObjectId ''5f0c1a2b3c4d5e6f70819203'')), (''status'', VStr ''available'')],
       [(''_id'', VOid (ObjectId ''5f0c1a2b3c4d5e6f70819204'')), (''status'', VStr ''available'')],
       [(''_id'', VOid (ObjectId ''5f0c1a2b3c4d5e6f70819205'')), (''status'', VStr ''adopted'')]]"
  have a: "list_all has_oid ?c"
    by (simp add: has_oid_def)
  have n: "length (filter (matches (filter_db None (Some (PetStatus ''available'')))) ?c) = 2"
    by (simp add: filter_db_def matches_def)
  from list_page_and_count [OF a, of None "Some (PetStatus ''available'')" 1 0] n
  show ?thesis by simp
qed

text \<open>
  C9. Start from a collection in which every document has \<^verbatim>\<open>created_at\<close> no later than
  \<^verbatim>\<open>last_modified\<close> and no stamp later than \<open>t0\<close> (the empty collection, for one), and
  run any sequence of create, update and delete requests whose payloads are valid and
  whose clock readings never go back. Then every document of the collection has
  \<^verbatim>\<open>created_at\<close> no later than \<^verbatim>\<open>last_modified\<close>: create stamps both with one value,
  and update stamps only \<^verbatim>\<open>last_modified\<close>, with the later reading.
\<close>

theorem created_le_modified_invariant:
  assumes "list_all (stamped_by t0) c"
    and "sorted (t0 # clocks rs)"
    and "list_all payload_ok rs"
  shows "list_all created_le_modified (run rs c)"
proof -
  from run_stamped [OF assms] obtain t where "list_all (stamped_by t) (run rs c)"
    by blast
  then show ?thesis
    by (auto simp: list_all_iff intro: stamped_by_created_le_modified)
qed

theorem created_le_modified_invariant_witness:
  "list_all created_le_modified
     (run [Create (ObjectId ''5f0c1a2b3c4d5e6f70819203'') ''2020-01-01T00:00:00''
             [(''kind'', VStr ''dog''), (''status'', VStr ''available''), (''name'', VStr ''Rex'')],
           Update ''5f0c1a2b3c4d5e6f70819203'' ''2020-01-02T08:30:00.000250''
             [(''kind'', VStr ''dog''), (''status'', VStr ''adopted''), (''name'', VStr ''Rex'')]]
        [])"
proof -
  have a: "list_all (stamped_by []) []"
    by simp
  have b: "sorted ([] # clocks
     [Create (ObjectId ''5f0c1a2b3c4d5e6f70819203'') ''2020-01-01T00:00:00''
             [(''kind'', VStr ''dog''), (''status'', VStr ''available''), (''name'', VStr ''Rex'')],
           Update ''5f0c1a2b3c4d5e6f70819203'' ''2020-01-02T08:30:00.000250''
             [(''kind'', VStr ''dog''), (''status'', VStr ''adopted''), (''name'', VStr ''Rex'')]])"
    by (simp add: less_eq_char_def less_char_def)
  have c: "list_all payload_ok
     [Create (ObjectId ''5f0c1a2b3c4d5e6f70819203'') ''2020-01-01T00:00:00''
             [(''kind'', VStr ''dog''), (''status'', VStr ''available''), (''name'', VStr ''Rex'')],
           Update ''5f0c1a2b3c4d5e6f70819203'' ''2020-01-02T08:30:00.000250''
             [(''kind'', VStr ''dog''), (''status'', VStr ''adopted''), (''name'', VStr ''Rex'')]]"
    by (simp add: valid_payload_def)
  from created_le_modified_invariant [OF a b c] show ?thesis .
qed

end
